theory Spec2Isabelle
  imports Main
begin

section \<open>The chipTAN flicker code of gnc-flicker-gui.c\<close>

text \<open>
  The file holds two pieces of logic: \<open>flicker_data\<close>, which turns the bank challenge into
  rows of the global \<open>bitarray\<close>, and the timer callback \<open>time_handler\<close> with the draw
  handler \<open>do_flicker_drawing\<close>, which step through those rows. C strings are \<open>string\<close>
  (the characters before the terminating NUL), \<open>guint\<close> values are \<open>nat\<close> with the
  wrap-around at \<open>2 ^ 32\<close> written where the code can reach it, and an access outside
  an array or an allocated block is the error value \<open>OutOfBounds\<close>.
\<close>

datatype error = OutOfBounds

subsection \<open>Character to nibble\<close>

text \<open>
  \<open>get_num\<close>: a decimal digit gives \<open>ch - 0x30\<close>, the letters A to F in either case give
  10 to 15, and the \<open>default\<close> label of the switch gives 0. The comparison reads the
  character as a number; a \<open>char\<close> above 127 is negative where \<open>char\<close> is signed and
  fails \<open>ch >= '0'\<close>, and fails \<open>ch <= '9'\<close> where it is unsigned, so the result is the
  same on both.
\<close>

definition get_num :: "char \<Rightarrow> nat" where
  "get_num ch =
     (if (of_char (CHR ''0'') :: nat) \<le> of_char ch \<and> (of_char ch :: nat) \<le> of_char (CHR ''9'')
      then of_char ch - 0x30
      else if ch = CHR ''A'' \<or> ch = CHR ''a'' then 10
      else if ch = CHR ''B'' \<or> ch = CHR ''b'' then 11
      else if ch = CHR ''C'' \<or> ch = CHR ''c'' then 12
      else if ch = CHR ''D'' \<or> ch = CHR ''d'' then 13
      else if ch = CHR ''E'' \<or> ch = CHR ''e'' then 14
      else if ch = CHR ''F'' \<or> ch = CHR ''f'' then 15
      else 0)"

subsection \<open>The bit table\<close>

text \<open>
  \<open>static const _Bool bits[16][5]\<close>: column 0 is the place of the clock bit (always 0 in
  the table), columns 1 to 4 hold the nibble with its least significant bit first.
\<close>

definition bits :: "bool list list" where
  "bits = map (map (\<lambda>b. b \<noteq> (0::nat)))
     [[0, 0, 0, 0, 0], [0, 1, 0, 0, 0], [0, 0, 1, 0, 0], [0, 1, 1, 0, 0],
      [0, 0, 0, 1, 0], [0, 1, 0, 1, 0], [0, 0, 1, 1, 0], [0, 1, 1, 1, 0],
      [0, 0, 0, 0, 1], [0, 1, 0, 0, 1], [0, 0, 1, 0, 1], [0, 1, 1, 0, 1],
      [0, 0, 0, 1, 1], [0, 1, 0, 1, 1], [0, 0, 1, 1, 1], [0, 1, 1, 1, 1]]"

subsection \<open>The global bit array\<close>

text \<open>
  \<open>static _Bool bitarray[255][5]\<close> is a store from row and column to a bit. Rows 0 to 254
  and columns 0 to 4 exist; every access checks the row, and the columns used are
  constants below 5. The array is a global that lives as long as the process, so the
  encoder starts from whatever an earlier session left in it.
\<close>

type_synonym bit_rows = "nat \<Rightarrow> nat \<Rightarrow> bool"

definition entry :: "bit_rows \<Rightarrow> nat \<Rightarrow> bool list" where
  "entry ba i = [ba i 0, ba i 1, ba i 2, ba i 3, ba i 4]"

text \<open>\<open>memcpy(&bitarray[i], src, sizeof(src))\<close> with a five-element source row.\<close>

definition store_row :: "bit_rows \<Rightarrow> nat \<Rightarrow> bool list \<Rightarrow> error + bit_rows" where
  "store_row ba i src =
     (if i < 255 then Inr (ba(i := (\<lambda>j. if j < 5 then src ! j else ba i j)))
      else Inl OutOfBounds)"

subsection \<open>The code buffer\<close>

text \<open>
  \<open>malloc\<close> hands out a block whose bytes are not initialised: \<open>mem\<close> gives the byte
  found at each offset of the new block. \<open>memcpy\<close> overwrites \<open>length src\<close> bytes of
  \<open>dst\<close> from offset \<open>off\<close>; both calls of \<open>flicker_data\<close> stay inside the block
  (lemma \<open>flicker_code_eq\<close>). \<open>strlen\<close> scans for the first NUL and leaves the block
  when there is none.
\<close>

definition pre :: string where
  "pre = ''0FFF''"

definition malloc :: "(nat \<Rightarrow> char) \<Rightarrow> nat \<Rightarrow> string" where
  "malloc mem len = map mem [0..<len]"

definition memcpy :: "string \<Rightarrow> nat \<Rightarrow> string \<Rightarrow> string" where
  "memcpy dst off src = take off dst @ src @ drop (off + length src) dst"

definition strlen :: "string \<Rightarrow> error + nat" where
  "strlen buf =
     (if CHR 0x00 \<in> set buf then Inr (length (takeWhile (\<lambda>c. c \<noteq> CHR 0x00) buf))
      else Inl OutOfBounds)"

subsection \<open>The encoder\<close>

text \<open>
  The loop of \<open>flicker_data\<close>: \<open>for (uint i = 0; i < len - 1; i += 2)\<close>. The counter
  cannot wrap: a row index of 255 or more ends the run with \<open>OutOfBounds\<close> first.
\<close>

function flicker_loop :: "string \<Rightarrow> nat \<Rightarrow> nat \<Rightarrow> bit_rows \<Rightarrow> error + bit_rows" where
  "flicker_loop code len i ba =
     (if i < len - 1 then
        (let val1 = get_num (code ! i); val2 = get_num (code ! (i + 1)) in
         if val1 < 0x10 \<and> val2 < 0x10 then
           (case store_row ba i (bits ! val2) of
              Inl e \<Rightarrow> Inl e
            | Inr ba1 \<Rightarrow>
                (case store_row ba1 (i + 1) (bits ! val1) of
                   Inl e \<Rightarrow> Inl e
                 | Inr ba2 \<Rightarrow> flicker_loop code len (i + 2) ba2))
         else flicker_loop code len (i + 2) ba)
      else Inr ba)"
  by pat_completeness auto
termination
  by (relation "measure (\<lambda>(code, len, i, ba). len - i)") auto

declare flicker_loop.simps [simp del]

text \<open>
  \<open>flicker_data\<close> returns the buffer and has written the rows. The terminator byte
  \<open>code[len - 1]\<close> is allocated and never stored.
\<close>

definition flicker_data :: "(nat \<Rightarrow> char) \<Rightarrow> string \<Rightarrow> bit_rows \<Rightarrow> error + string \<times> bit_rows" where
  "flicker_data mem challenge ba =
     (let len = length pre + length challenge + 1;
          code0 = malloc mem len;
          code1 = memcpy code0 0 pre;
          code = memcpy code1 (length pre) challenge
      in case flicker_loop code len 0 ba of
           Inl e \<Rightarrow> Inl e
         | Inr ba' \<Rightarrow> Inr (code, ba'))"

subsection \<open>The animation state and the timer\<close>

text \<open>
  \<open>struct Flickerdraw\<close>, without the geometry fields (margin, bar size, positions), which
  only place the rectangles. \<open>clock\<close> is a \<open>guint\<close> that the code sets to 0 or 1.
\<close>

record Flickerdraw =
  challenge :: string
  challenge_length :: nat
  delay :: nat
  halfbyteid :: nat
  clock :: nat
  interval :: nat
  change_interval :: bool

text \<open>
  GLib is a library outside the repository; its main loop is modelled by what the two
  calls of the file promise: \<open>g_timeout_add\<close> registers a periodic source and returns its
  new id, \<open>g_source_remove\<close> cancels the source with that id. \<open>timeouts\<close> maps each live
  source to its period in milliseconds.
\<close>

record main_loop =
  timeouts :: "nat \<rightharpoonup> nat"
  next_source :: nat

definition g_timeout_add :: "nat \<Rightarrow> main_loop \<Rightarrow> nat \<times> main_loop" where
  "g_timeout_add ms ml =
     (next_source ml,
      ml\<lparr>timeouts := (timeouts ml)(next_source ml \<mapsto> ms), next_source := next_source ml + 1\<rparr>)"

definition g_source_remove :: "nat \<Rightarrow> main_loop \<Rightarrow> main_loop" where
  "g_source_remove tag ml = ml\<lparr>timeouts := (timeouts ml)(tag := None)\<rparr>"

record state =
  flickerdraw :: Flickerdraw
  bitarray :: bit_rows
  glib :: main_loop

definition DELAY :: nat where
  "DELAY = 50"

text \<open>
  \<open>time_handler\<close> returns its \<open>gboolean\<close> (TRUE keeps the source that called it), whether
  it called \<open>gtk_widget_queue_draw\<close>, and the state.
\<close>

definition time_handler :: "state \<Rightarrow> bool \<times> bool \<times> state" where
  "time_handler s =
     (if change_interval (flickerdraw s) then
        (let ml1 = g_source_remove (interval (flickerdraw s)) (glib s);
             (tag, ml2) = g_timeout_add (delay (flickerdraw s)) ml1
         in (False, False,
             s\<lparr>flickerdraw := (flickerdraw s)\<lparr>interval := tag, change_interval := False\<rparr>,
               glib := ml2\<rparr>))
      else (True, True, s))"

text \<open>
  \<open>do_flicker_drawing\<close> returns the five bits it hands to \<open>draw_bit\<close>, bar 0 first, and
  the state; where the bars are placed is left out. \<open>halfbyteid++\<close> is a \<open>guint\<close>
  increment.
\<close>

definition do_flicker_drawing :: "state \<Rightarrow> error + bool list \<times> state" where
  "do_flicker_drawing s =
     (let fd = flickerdraw s; h = halfbyteid fd in
      if h < 255 then
        (let ba = (bitarray s)(h := (bitarray s h)(0 := (clock fd \<noteq> 0)));
             frame = [clock fd \<noteq> 0, ba h 1, ba h 2, ba h 3, ba h 4];
             fd' = (if clock fd = 0 then
                      (let h' = (h + 1) mod 2 ^ 32 in
                       fd\<lparr>clock := 1,
                          halfbyteid := (if h' \<ge> challenge_length fd then 0 else h')\<rparr>)
                    else fd\<lparr>clock := 0\<rparr>)
         in Inr (frame, s\<lparr>flickerdraw := fd', bitarray := ba\<rparr>))
      else Inl OutOfBounds)"

text \<open>
  \<open>on_spin_delay_value_changed\<close> with the spin button's value: it stores the delay, raises
  the flag and calls \<open>time_handler\<close> itself. The result says whether a redraw was queued.
\<close>

definition on_spin_delay_value_changed :: "nat \<Rightarrow> state \<Rightarrow> bool \<times> state" where
  "on_spin_delay_value_changed v s =
     (let s1 = s\<lparr>flickerdraw := (flickerdraw s)\<lparr>delay := v, change_interval := True\<rparr>\<rparr>;
          (keep, queued, s2) = time_handler s1
      in (queued, s2))"

text \<open>
  \<open>on_flicker_challenge_map\<close>: encode, take \<open>strlen(code)\<close> as the number of rows (a
  \<open>size_t\<close> stored in a \<open>guint\<close>) and start the timer. The block it allocates first is
  dropped by the next assignment and plays no part. \<open>ini_flicker_gui\<close> sets the fields the
  animation starts from; the delay comes from the state file when it has one.
\<close>

definition on_flicker_challenge_map :: "(nat \<Rightarrow> char) \<Rightarrow> state \<Rightarrow> error + state" where
  "on_flicker_challenge_map mem s =
     (case flicker_data mem (challenge (flickerdraw s)) (bitarray s) of
        Inl e \<Rightarrow> Inl e
      | Inr (code, ba) \<Rightarrow>
          (case strlen code of
             Inl e \<Rightarrow> Inl e
           | Inr n \<Rightarrow>
               (let (tag, ml) = g_timeout_add (delay (flickerdraw s)) (glib s) in
                Inr (s\<lparr>flickerdraw := (flickerdraw s)\<lparr>challenge_length := n mod 2 ^ 32,
                                                      interval := tag\<rparr>,
                       bitarray := ba, glib := ml\<rparr>))))"

definition ini_flicker_gui :: "string \<Rightarrow> nat option \<Rightarrow> state \<Rightarrow> state" where
  "ini_flicker_gui pChallenge saved_delay s =
     s\<lparr>flickerdraw := (flickerdraw s)
         \<lparr>delay := (case saved_delay of None \<Rightarrow> DELAY | Some d \<Rightarrow> d),
          halfbyteid := 0, clock := 1, challenge := pChallenge\<rparr>\<rparr>"

text \<open>
  One firing of the timeout source: GLib calls \<open>time_handler\<close> and destroys the source
  that fired when the handler returns FALSE; GTK then emits \<open>draw\<close> for a queued redraw,
  whose handler \<open>on_flicker_challenge_draw\<close> is \<open>do_flicker_drawing\<close>. The result holds
  the frame drawn, or \<open>None\<close> when nothing was redrawn.
\<close>

definition on_tick :: "state \<Rightarrow> error + bool list option \<times> state" where
  "on_tick s =
     (let tag = interval (flickerdraw s);
          (keep, queued, s1) = time_handler s;
          s2 = (if keep then s1 else s1\<lparr>glib := g_source_remove tag (glib s1)\<rparr>)
      in if queued then
           (case do_flicker_drawing s2 of
              Inl e \<Rightarrow> Inl e
            | Inr (frame, s3) \<Rightarrow> Inr (Some frame, s3))
         else Inr (None, s2))"

fun run_ticks :: "nat \<Rightarrow> state \<Rightarrow> error + bool list option list \<times> state" where
  "run_ticks 0 s = Inr ([], s)"
| "run_ticks (Suc k) s =
     (case on_tick s of
        Inl e \<Rightarrow> Inl e
      | Inr (f, s1) \<Rightarrow>
          (case run_ticks k s1 of
             Inl e \<Rightarrow> Inl e
           | Inr (fs, s2) \<Rightarrow> Inr (f # fs, s2)))"

subsection \<open>Concrete inputs\<close>

text \<open>
  The array as the program starts (static storage is zeroed), a fresh block that happens
  to hold zero bytes and a recycled one that holds \<open>0x41\<close> bytes, and the state of the
  process before the dialog is opened for the first time.
\<close>

definition zero_rows :: bit_rows where
  "zero_rows = (\<lambda>r c. False)"

definition nul_mem :: "nat \<Rightarrow> char" where
  "nul_mem = (\<lambda>n. CHR 0x00)"

definition dirty_mem :: "nat \<Rightarrow> char" where
  "dirty_mem = (\<lambda>n. CHR ''A'')"

definition startup :: state where
  "startup =
     \<lparr>flickerdraw = \<lparr>challenge = [], challenge_length = 0, delay = 0, halfbyteid = 0,
                      clock = 0, interval = 0, change_interval = False\<rparr>,
      bitarray = zero_rows,
      glib = \<lparr>timeouts = Map.empty, next_source = 1\<rparr>\<rparr>"

text \<open>
  The session for the challenge 1A once the drawing area is mapped, in a process that has
  just started and with a block that holds zero bytes: six rows, the timer with id 1
  running at the default delay. \<open>pending_1A\<close> is that session inside
  \<open>on_spin_delay_value_changed\<close>, after the new delay 100 and the flag are stored.
\<close>

definition session_1A :: state where
  "session_1A =
     (case on_flicker_challenge_map nul_mem (ini_flicker_gui ''1A'' None startup) of
        Inl e \<Rightarrow> startup
      | Inr s \<Rightarrow> s)"

definition pending_1A :: state where
  "pending_1A =
     session_1A\<lparr>flickerdraw := (flickerdraw session_1A)\<lparr>delay := 100, change_interval := True\<rparr>\<rparr>"

section \<open>Auxiliary facts\<close>

subsection \<open>Nibbles and table rows\<close>

lemma nibble_cases:
  "(v::nat) < 16 \<Longrightarrow> v \<in> set [0, 1, 2, 3, 4, 5, 6, 7, 8, 9, 10, 11, 12, 13, 14, 15]"
  by (simp only: set_simps insert_iff empty_iff) arith

lemma get_num_range: "get_num ch < 16"
  unfolding get_num_def by auto

lemma bits_row:
  "v < 16 \<Longrightarrow> [bits ! v ! 0, bits ! v ! 1, bits ! v ! 2, bits ! v ! 3, bits ! v ! 4] = bits ! v"
  by (drule nibble_cases)
     (simp only: set_simps insert_iff empty_iff, elim disjE, simp_all add: bits_def)

lemma bits_clock_slot: "v < 16 \<Longrightarrow> \<not> bits ! v ! 0"
  by (drule nibble_cases) (auto simp add: bits_def)

lemma entry_cong: "ba' r = ba r \<Longrightarrow> entry ba' r = entry ba r"
  by (simp add: entry_def)

subsection \<open>The encoder loop\<close>

lemma flicker_loop_unfold:
  "flicker_loop code len i ba =
     (if i < len - 1 then
        (case store_row ba i (bits ! get_num (code ! (i + 1))) of
           Inl e \<Rightarrow> Inl e
         | Inr ba1 \<Rightarrow>
             (case store_row ba1 (i + 1) (bits ! get_num (code ! i)) of
                Inl e \<Rightarrow> Inl e
              | Inr ba2 \<Rightarrow> flicker_loop code len (i + 2) ba2))
      else Inr ba)"
  by (subst flicker_loop.simps) (simp add: get_num_range Let_def)

lemma flicker_loop_done: "\<not> i < len - 1 \<Longrightarrow> flicker_loop code len i ba = Inr ba"
  by (subst flicker_loop.simps) simp

lemma flicker_loop_step:
  "i < len - 1 \<Longrightarrow> i + 1 < 255 \<Longrightarrow>
   flicker_loop code len i ba =
     flicker_loop code len (i + 2)
       ((ba(i := (\<lambda>j. if j < 5 then bits ! get_num (code ! (i + 1)) ! j else ba i j)))
          (i + 1 := (\<lambda>j. if j < 5 then bits ! get_num (code ! i) ! j else ba (i + 1) j)))"
  by (subst flicker_loop_unfold) (simp add: store_row_def)

lemma flicker_loop_overflow:
  "i < len - 1 \<Longrightarrow> 255 \<le> i + 1 \<Longrightarrow> flicker_loop code len i ba = Inl OutOfBounds"
  by (subst flicker_loop_unfold) (simp add: store_row_def)

lemma flicker_loop_succeeds:
  "len - 1 \<le> 254 \<Longrightarrow> \<exists>ba'. flicker_loop code len i ba = Inr ba'"
proof (induction code len i ba rule: flicker_loop.induct)
  case (1 code len i ba)
  show ?case
  proof (cases "i < len - 1")
    case True
    with "1.prems" have b: "i + 1 < 255" by simp
    have "get_num (code ! i) < 0x10 \<and> get_num (code ! (i + 1)) < 0x10"
      using get_num_range by simp
    from "1.IH"(1)[OF True refl refl this _ _ "1.prems"] True b
    show ?thesis
      by (subst flicker_loop_unfold) (simp add: store_row_def)
  next
    case False
    then show ?thesis by (simp add: flicker_loop_done)
  qed
qed

lemma flicker_loop_fails:
  "even i \<Longrightarrow> i \<le> 254 \<Longrightarrow> 254 < len - 1 \<Longrightarrow> flicker_loop code len i ba = Inl OutOfBounds"
proof (induction code len i ba rule: flicker_loop.induct)
  case (1 code len i ba)
  show ?case
  proof (cases "i = 254")
    case True
    with "1.prems" show ?thesis by (simp add: flicker_loop_overflow)
  next
    case False
    with "1.prems" have lt: "i < len - 1" and b: "i + 1 < 255" and n: "i + 2 \<le> 254"
      by (auto elim!: evenE)
    have g: "get_num (code ! i) < 0x10 \<and> get_num (code ! (i + 1)) < 0x10"
      using get_num_range by simp
    have ev: "even (i + 2)" using "1.prems" by simp
    show ?thesis
      using "1.IH"(1)[OF lt refl refl g _ _ ev n "1.prems"(3)] lt b
      by (subst flicker_loop_unfold) (simp add: store_row_def)
  qed
qed

lemma flicker_loop_rows:
  "flicker_loop code len i ba = Inr ba' \<Longrightarrow>
   (\<forall>r. r < i \<longrightarrow> ba' r = ba r) \<and>
   (\<forall>k. i + 2 * k < len - 1 \<longrightarrow>
      entry ba' (i + 2 * k) = bits ! get_num (code ! (i + 2 * k + 1)) \<and>
      entry ba' (i + 2 * k + 1) = bits ! get_num (code ! (i + 2 * k)))"
proof (induction code len i ba arbitrary: ba' rule: flicker_loop.induct)
  case (1 code len i ba)
  show ?case
  proof (cases "i < len - 1")
    case False
    with "1.prems" show ?thesis by (simp add: flicker_loop_done)
  next
    case True
    define ba2 where "ba2 = (ba(i := (\<lambda>j. if j < 5 then bits ! get_num (code ! (i + 1)) ! j else ba i j)))
          (i + 1 := (\<lambda>j. if j < 5 then bits ! get_num (code ! i) ! j else ba (i + 1) j))"
    have b: "i + 1 < 255"
    proof (rule ccontr)
      assume "\<not> i + 1 < 255"
      then have "flicker_loop code len i ba = Inl OutOfBounds"
        using True by (simp add: flicker_loop_overflow)
      with "1.prems" show False by simp
    qed
    have g: "get_num (code ! i) < 0x10 \<and> get_num (code ! (i + 1)) < 0x10"
      using get_num_range by simp
    have s1: "store_row ba i (bits ! get_num (code ! (i + 1))) = Inr (ba(i := (\<lambda>j. if j < 5 then bits ! get_num (code ! (i + 1)) ! j else ba i j)))"
      using b by (simp add: store_row_def)
    have s2: "store_row (ba(i := (\<lambda>j. if j < 5 then bits ! get_num (code ! (i + 1)) ! j else ba i j))) (i + 1) (bits ! get_num (code ! i)) = Inr ba2"
      using b by (simp add: store_row_def ba2_def)
    have rec: "flicker_loop code len (i + 2) ba2 = Inr ba'"
      using "1.prems" True b unfolding ba2_def by (simp add: flicker_loop_step)
    note ih = "1.IH"(1)[OF True refl refl g s1 s2 rec]
    have low: "\<forall>r. r < i + 2 \<longrightarrow> ba' r = ba2 r" using ih by blast
    have e0: "entry ba' i = bits ! get_num (code ! (i + 1))"
    proof -
      have "entry ba' i = entry ba2 i" by (rule entry_cong) (simp add: low)
      also have "\<dots> = bits ! get_num (code ! (i + 1))"
        unfolding ba2_def using get_num_range[of "code ! (i + 1)"] bits_row[of "get_num (code ! (i + 1))"]
        by (simp add: entry_def)
      finally show ?thesis .
    qed
    have e1: "entry ba' (i + 1) = bits ! get_num (code ! i)"
    proof -
      have "entry ba' (i + 1) = entry ba2 (i + 1)" by (rule entry_cong) (simp add: low)
      also have "\<dots> = bits ! get_num (code ! i)"
        unfolding ba2_def using get_num_range[of "code ! i"] bits_row[of "get_num (code ! i)"]
        by (simp add: entry_def)
      finally show ?thesis .
    qed
    have lowr: "\<forall>r. r < i \<longrightarrow> ba' r = ba r"
    proof (intro allI impI)
      fix r assume "r < i"
      then have "ba' r = ba2 r" using low by simp
      also have "\<dots> = ba r" using \<open>r < i\<close> by (simp add: ba2_def)
      finally show "ba' r = ba r" .
    qed
    have pairs: "\<forall>k. i + 2 * k < len - 1 \<longrightarrow>
      entry ba' (i + 2 * k) = bits ! get_num (code ! (i + 2 * k + 1)) \<and>
      entry ba' (i + 2 * k + 1) = bits ! get_num (code ! (i + 2 * k))"
    proof (intro allI impI)
      fix k assume k: "i + 2 * k < len - 1"
      show "entry ba' (i + 2 * k) = bits ! get_num (code ! (i + 2 * k + 1)) \<and>
            entry ba' (i + 2 * k + 1) = bits ! get_num (code ! (i + 2 * k))"
      proof (cases k)
        case 0
        with e0 e1 show ?thesis by simp
      next
        case (Suc k')
        with k have "i + 2 + 2 * k' < len - 1" by simp
        with ih have "entry ba' (i + 2 + 2 * k') = bits ! get_num (code ! (i + 2 + 2 * k' + 1)) \<and>
            entry ba' (i + 2 + 2 * k' + 1) = bits ! get_num (code ! (i + 2 + 2 * k'))" by blast
        then show ?thesis using Suc by (simp add: add.assoc)
      qed
    qed
    from lowr pairs show ?thesis by blast
  qed
qed

lemma flicker_loop_frame:
  "flicker_loop code len i ba = Inr ba' \<Longrightarrow> even i \<Longrightarrow> even n \<Longrightarrow> len - 1 \<le> n \<Longrightarrow> n \<le> r \<Longrightarrow> ba' r = ba r"
proof (induction code len i ba arbitrary: ba' rule: flicker_loop.induct)
  case (1 code len i ba)
  show ?case
  proof (cases "i < len - 1")
    case False
    with "1.prems" show ?thesis by (simp add: flicker_loop_done)
  next
    case True
    define ba2 where "ba2 = (ba(i := (\<lambda>j. if j < 5 then bits ! get_num (code ! (i + 1)) ! j else ba i j)))
          (i + 1 := (\<lambda>j. if j < 5 then bits ! get_num (code ! i) ! j else ba (i + 1) j))"
    have b: "i + 1 < 255"
    proof (rule ccontr)
      assume "\<not> i + 1 < 255"
      then have "flicker_loop code len i ba = Inl OutOfBounds"
        using True by (simp add: flicker_loop_overflow)
      with "1.prems" show False by simp
    qed
    have g: "get_num (code ! i) < 0x10 \<and> get_num (code ! (i + 1)) < 0x10"
      using get_num_range by simp
    have s1: "store_row ba i (bits ! get_num (code ! (i + 1))) = Inr (ba(i := (\<lambda>j. if j < 5 then bits ! get_num (code ! (i + 1)) ! j else ba i j)))"
      using b by (simp add: store_row_def)
    have s2: "store_row (ba(i := (\<lambda>j. if j < 5 then bits ! get_num (code ! (i + 1)) ! j else ba i j))) (i + 1) (bits ! get_num (code ! i)) = Inr ba2"
      using b by (simp add: store_row_def ba2_def)
    have rec: "flicker_loop code len (i + 2) ba2 = Inr ba'"
      using "1.prems" True b unfolding ba2_def by (simp add: flicker_loop_step)
    have ev: "even (i + 2)" using "1.prems" by simp
    have "ba' r = ba2 r"
      by (rule "1.IH"(1)[OF True refl refl g s1 s2 rec ev "1.prems"(3,4,5)])
    moreover have "i + 1 < r"
    proof -
      from True "1.prems" have "i < n" by simp
      with \<open>even i\<close> \<open>even n\<close> have "i + 2 \<le> n" by (auto elim!: evenE)
      with \<open>n \<le> r\<close> show ?thesis by simp
    qed
    ultimately show ?thesis by (simp add: ba2_def)
  qed
qed

subsection \<open>The buffer and the encoder as a whole\<close>

lemma pre_len: "length pre = 4"
  by (simp add: pre_def)

lemma flicker_code_eq:
  "memcpy (memcpy (malloc mem (length chal + 5)) 0 pre) (length pre) chal
     = pre @ chal @ [mem (length chal + 4)]"
proof -
  define dst where "dst = malloc mem (length chal + 5)"
  have 1: "memcpy dst 0 pre = pre @ drop (length pre) dst"
    by (simp add: memcpy_def)
  have 2: "memcpy (pre @ drop (length pre) dst) (length pre) chal =
             pre @ chal @ drop (length chal) (drop (length pre) dst)"
    by (simp add: memcpy_def)
  have u: "[length chal + 4..<length chal + 5] = [length chal + 4]"
    by (simp add: upt_conv_Cons)
  have "drop (length chal) (drop (length pre) dst) = map mem [length chal + 4..<length chal + 5]"
    unfolding dst_def malloc_def by (simp only: drop_drop drop_map drop_upt pre_len) (simp add: add.commute)
  then have 3: "drop (length chal) (drop (length pre) dst) = [mem (length chal + 4)]"
    unfolding u by simp
  show ?thesis
    unfolding dst_def[symmetric] 1 2 3 by (rule refl)
qed

lemma flicker_data_unfold:
  "flicker_data mem chal ba =
     (case flicker_loop (pre @ chal @ [mem (length chal + 4)]) (length chal + 5) 0 ba of
        Inl e \<Rightarrow> Inl e
      | Inr ba' \<Rightarrow> Inr (pre @ chal @ [mem (length chal + 4)], ba'))"
proof -
  have len: "length pre + length chal + 1 = length chal + 5" by (simp add: pre_def)
  show ?thesis
    unfolding flicker_data_def Let_def len flicker_code_eq by (rule refl)
qed

lemma flicker_data_overflow:
  "250 < length chal \<Longrightarrow> flicker_data mem chal ba = Inl OutOfBounds"
  by (simp add: flicker_data_unfold flicker_loop_fails)

lemma flicker_data_succeeds:
  "length chal \<le> 250 \<Longrightarrow>
   \<exists>ba'. flicker_data mem chal ba = Inr (pre @ chal @ [mem (length chal + 4)], ba') \<and>
         flicker_loop (pre @ chal @ [mem (length chal + 4)]) (length chal + 5) 0 ba = Inr ba'"
proof -
  assume "length chal \<le> 250"
  then have "length chal + 5 - 1 \<le> 254" by simp
  from flicker_loop_succeeds[OF this]
  obtain ba' where "flicker_loop (pre @ chal @ [mem (length chal + 4)]) (length chal + 5) 0 ba = Inr ba'"
    by blast
  then show ?thesis by (simp add: flicker_data_unfold)
qed

lemma strlen_code:
  "CHR 0x00 \<notin> set chal \<Longrightarrow>
   strlen (pre @ chal @ [b]) = (if b = CHR 0x00 then Inr (length chal + 4) else Inl OutOfBounds)"
  by (auto simp add: strlen_def pre_def takeWhile_append)

subsection \<open>Characters\<close>

lemma digit_codes:
  "(48::nat) \<le> n \<Longrightarrow> n \<le> 57 \<Longrightarrow> n \<in> set [48, 49, 50, 51, 52, 53, 54, 55, 56, 57]"
  by (simp only: set_simps insert_iff empty_iff) arith

lemma digit_chars: "map char_of [48, 49, 50, 51, 52, 53, 54, 55, 56, 57 :: nat] = ''0123456789''"
  by code_simp

lemma hex_digit_cases:
  assumes "(48::nat) \<le> of_char c" and "(of_char c :: nat) \<le> 57"
  shows "c \<in> set ''0123456789''"
proof -
  define n :: nat where "n = of_char c"
  have c: "c = char_of n" by (simp add: n_def)
  from assms have "n \<in> set [48, 49, 50, 51, 52, 53, 54, 55, 56, 57]"
    unfolding n_def[symmetric] by (rule digit_codes)
  then have "char_of n \<in> set (map char_of [48, 49, 50, 51, 52, 53, 54, 55, 56, 57 :: nat])"
    by (simp only: set_map) (rule imageI)
  then show ?thesis unfolding c digit_chars .
qed

lemma get_num_fallback: "c \<notin> set ''0123456789ABCDEFabcdef'' \<Longrightarrow> get_num c = 0"
proof -
  assume a: "c \<notin> set ''0123456789ABCDEFabcdef''"
  have dig: "\<not> ((of_char (CHR ''0'') :: nat) \<le> of_char c \<and> (of_char c :: nat) \<le> of_char (CHR ''9''))"
  proof
    assume "(of_char (CHR ''0'') :: nat) \<le> of_char c \<and> (of_char c :: nat) \<le> of_char (CHR ''9'')"
    then have "(48::nat) \<le> of_char c" and "(of_char c :: nat) \<le> 57" by simp_all
    then have "c \<in> set ''0123456789''" by (rule hex_digit_cases)
    with a show False by auto
  qed
  from a have l: "c \<noteq> CHR ''A''" "c \<noteq> CHR ''a''" "c \<noteq> CHR ''B''" "c \<noteq> CHR ''b''"
    "c \<noteq> CHR ''C''" "c \<noteq> CHR ''c''" "c \<noteq> CHR ''D''" "c \<noteq> CHR ''d''"
    "c \<noteq> CHR ''E''" "c \<noteq> CHR ''e''" "c \<noteq> CHR ''F''" "c \<noteq> CHR ''f''"
    by simp_all
  show ?thesis
    unfolding get_num_def by (simp only: dig l if_False simp_thms)
qed

lemma map_length_when_terminated:
  assumes "length (challenge (flickerdraw s)) \<le> 250"
    and "CHR 0x00 \<notin> set (challenge (flickerdraw s))"
    and "mem (length (challenge (flickerdraw s)) + 4) = CHR 0x00"
  shows "\<exists>s'. on_flicker_challenge_map mem s = Inr s' \<and>
           challenge_length (flickerdraw s') = length (challenge (flickerdraw s)) + 4"
proof -
  let ?c = "challenge (flickerdraw s)"
  from flicker_data_succeeds[OF assms(1), of mem "bitarray s"] obtain ba' where
    d: "flicker_data mem ?c (bitarray s) = Inr (pre @ ?c @ [mem (length ?c + 4)], ba')"
    by blast
  have "length ?c + 4 < (2::nat) ^ 32" using assms(1) by simp
  then have "(length ?c + 4) mod 2 ^ 32 = length ?c + 4" by simp
  then show ?thesis
    by (simp add: on_flicker_challenge_map_def d strlen_code[OF assms(2)] assms(3)
        g_timeout_add_def)
qed

lemma map_overruns_when_unterminated:
  assumes "length (challenge (flickerdraw s)) \<le> 250"
    and "CHR 0x00 \<notin> set (challenge (flickerdraw s))"
    and "mem (length (challenge (flickerdraw s)) + 4) \<noteq> CHR 0x00"
  shows "on_flicker_challenge_map mem s = Inl OutOfBounds"
proof -
  let ?c = "challenge (flickerdraw s)"
  from flicker_data_succeeds[OF assms(1), of mem "bitarray s"] obtain ba' where
    d: "flicker_data mem ?c (bitarray s) = Inr (pre @ ?c @ [mem (length ?c + 4)], ba')"
    by blast
  show ?thesis
    by (simp add: on_flicker_challenge_map_def d strlen_code[OF assms(2)] assms(3))
qed

lemma on_tick_draws:
  "\<not> change_interval (flickerdraw s) \<Longrightarrow>
   on_tick s = (case do_flicker_drawing s of
                  Inl e \<Rightarrow> Inl e
                | Inr (frame, s') \<Rightarrow> Inr (Some frame, s'))"
  by (simp add: on_tick_def time_handler_def)

subsection \<open>The sample session\<close>

lemma session_1A_flickerdraw:
  "flickerdraw session_1A =
     \<lparr>challenge = ''1A'', challenge_length = 6, delay = 50, halfbyteid = 0, clock = 1,
      interval = 1, change_interval = False\<rparr>"
  by (simp add: session_1A_def on_flicker_challenge_map_def ini_flicker_gui_def startup_def
      flicker_data_unfold pre_def flicker_loop_unfold store_row_def strlen_def nul_mem_def
      g_timeout_add_def DELAY_def)

lemma session_1A_glib:
  "timeouts (glib session_1A) = [1 \<mapsto> 50]" "next_source (glib session_1A) = 2"
  by (simp_all add: session_1A_def on_flicker_challenge_map_def ini_flicker_gui_def startup_def
      flicker_data_unfold pre_def flicker_loop_unfold store_row_def strlen_def nul_mem_def
      g_timeout_add_def DELAY_def)

lemma session_1A_row0:
  "\<not> bitarray session_1A 0 0" "bitarray session_1A 0 (Suc 0)" "bitarray session_1A 0 2"
  "bitarray session_1A 0 3" "bitarray session_1A 0 4"
  by (simp_all add: session_1A_def on_flicker_challenge_map_def ini_flicker_gui_def startup_def
      flicker_data_unfold pre_def flicker_loop_unfold store_row_def strlen_def nul_mem_def
      g_timeout_add_def get_num_def bits_def zero_rows_def)

lemma session_1A_rows:
  "map (entry (bitarray session_1A)) [0, 1, 2, 3, 4, 5] =
     [bits ! 15, bits ! 0, bits ! 15, bits ! 15, bits ! 10, bits ! 1]"
  by (simp add: session_1A_def on_flicker_challenge_map_def ini_flicker_gui_def startup_def
      flicker_data_unfold pre_def flicker_loop_unfold store_row_def strlen_def nul_mem_def
      g_timeout_add_def get_num_def bits_def zero_rows_def entry_def)

lemma session_1A_reached:
  "on_flicker_challenge_map nul_mem (ini_flicker_gui ''1A'' None startup) = Inr session_1A"
proof -
  have "\<exists>s'. on_flicker_challenge_map nul_mem (ini_flicker_gui ''1A'' None startup) = Inr s' \<and>
           challenge_length (flickerdraw s') =
             length (challenge (flickerdraw (ini_flicker_gui ''1A'' None startup))) + 4"
    by (rule map_length_when_terminated) (simp_all add: ini_flicker_gui_def nul_mem_def)
  then show ?thesis by (auto simp add: session_1A_def)
qed

lemma pending_1A_flickerdraw:
  "flickerdraw pending_1A =
     \<lparr>challenge = ''1A'', challenge_length = 6, delay = 100, halfbyteid = 0, clock = 1,
      interval = 1, change_interval = True\<rparr>"
  by (simp add: pending_1A_def session_1A_flickerdraw)

lemma pending_1A_rest:
  "glib pending_1A = glib session_1A" "bitarray pending_1A = bitarray session_1A"
  by (simp_all add: pending_1A_def)

lemma on_tick_step:
  assumes nc: "\<not> change_interval (flickerdraw s)"
    and L: "challenge_length (flickerdraw s) = L" "0 < L" "L \<le> 255"
    and h: "halfbyteid (flickerdraw s) = (p div 2) mod L"
    and c: "clock (flickerdraw s) = (if even p then 1 else 0)"
    and data: "\<forall>r c. 0 < c \<longrightarrow> bitarray s r c = ba0 r c"
  shows "\<exists>s1. on_tick s = Inr (Some ((entry ba0 ((p div 2) mod L))[0 := even p]), s1) \<and>
           \<not> change_interval (flickerdraw s1) \<and>
           challenge_length (flickerdraw s1) = L \<and>
           halfbyteid (flickerdraw s1) = (Suc p div 2) mod L \<and>
           clock (flickerdraw s1) = (if even (Suc p) then 1 else 0) \<and>
           (\<forall>r c. 0 < c \<longrightarrow> bitarray s1 r c = ba0 r c)"
proof -
  define hh where "hh = (p div 2) mod L"
  have hL: "hh < L" using L by (simp add: hh_def)
  then have h255: "hh < 255" using L by simp
  have frame: "(entry ba0 hh)[0 := even p] = [even p, bitarray s hh 1, bitarray s hh 2, bitarray s hh 3, bitarray s hh 4]"
    using data by (simp add: entry_def)
  show ?thesis
  proof (cases "even p")
    case True
    then have "Suc p div 2 = p div 2" by (auto elim: evenE)
    then have nxt: "(Suc p div 2) mod L = hh" by (simp add: hh_def)
    show ?thesis
      unfolding on_tick_draws[OF nc] hh_def[symmetric] nxt frame
      using True h255 c h L data nc
      by (simp add: do_flicker_drawing_def Let_def hh_def[symmetric])
  next
    case False
    then have "Suc p div 2 = Suc (p div 2)" by (auto elim: oddE)
    then have nxt: "(Suc p div 2) mod L = (if Suc hh = L then 0 else Suc hh)"
      by (simp add: hh_def mod_Suc)
    have m: "(hh + 1) mod 2 ^ 32 = Suc hh" using h255 by simp
    have ge: "(L \<le> Suc hh) = (Suc hh = L)" using hL by auto
    show ?thesis
      unfolding on_tick_draws[OF nc] hh_def[symmetric] nxt frame
      using False h255 c h L data m ge nc
      by (simp add: do_flicker_drawing_def Let_def hh_def[symmetric])
  qed
qed

lemma run_ticks_cadence:
  assumes "\<not> change_interval (flickerdraw s)"
    and "challenge_length (flickerdraw s) = L" "0 < L" "L \<le> 255"
    and "halfbyteid (flickerdraw s) = (p div 2) mod L"
    and "clock (flickerdraw s) = (if even p then 1 else 0)"
    and "\<forall>r c. 0 < c \<longrightarrow> bitarray s r c = ba0 r c"
  shows "\<exists>fs s'. run_ticks k s = Inr (fs, s') \<and> length fs = k \<and>
           (\<forall>j<k. fs ! j = Some ((entry ba0 (((p + j) div 2) mod L))[0 := even (p + j)])) \<and>
           halfbyteid (flickerdraw s') = ((p + k) div 2) mod L \<and>
           clock (flickerdraw s') = (if even (p + k) then 1 else 0)"
  using assms
proof (induction k arbitrary: s p)
  case 0
  then show ?case by simp
next
  case (Suc k)
  from on_tick_step[OF Suc.prems] obtain s1 where
    t: "on_tick s = Inr (Some ((entry ba0 ((p div 2) mod L))[0 := even p]), s1)" and
    i: "\<not> change_interval (flickerdraw s1)" "challenge_length (flickerdraw s1) = L"
       "halfbyteid (flickerdraw s1) = (Suc p div 2) mod L"
       "clock (flickerdraw s1) = (if even (Suc p) then 1 else 0)"
       "\<forall>r c. 0 < c \<longrightarrow> bitarray s1 r c = ba0 r c"
    by blast
  from Suc.IH[OF i(1) i(2) Suc.prems(3,4) i(3) i(4) i(5)] obtain fs s' where
    r: "run_ticks k s1 = Inr (fs, s')" and len: "length fs = k" and
    fr: "\<forall>j<k. fs ! j = Some ((entry ba0 (((Suc p + j) div 2) mod L))[0 := even (Suc p + j)])" and
    fin: "halfbyteid (flickerdraw s') = ((Suc p + k) div 2) mod L"
         "clock (flickerdraw s') = (if even (Suc p + k) then 1 else 0)"
    by blast
  let ?f = "Some ((entry ba0 ((p div 2) mod L))[0 := even p])"
  have run: "run_ticks (Suc k) s = Inr (?f # fs, s')" by (simp add: t r)
  have nth: "(?f # fs) ! j = Some ((entry ba0 (((p + j) div 2) mod L))[0 := even (p + j)])"
    if "j < Suc k" for j
  proof (cases j)
    case 0
    then show ?thesis by simp
  next
    case (Suc j')
    with that have "j' < k" by simp
    with fr have "fs ! j' = Some ((entry ba0 (((Suc p + j') div 2) mod L))[0 := even (Suc p + j')])"
      by blast
    then show ?thesis by (simp add: Suc)
  qed
  from run len nth fin show ?case by auto
qed

section \<open>The claims\<close>

text \<open>
  C1 (as amended). For every challenge of at most 250 characters the encoder succeeds and,
  with \<open>c\<close> the challenge behind the prefix 0FFF, stores for every even \<open>i\<close> with
  \<open>i + 1\<close> inside \<open>c\<close> the table row of \<open>get_num (c[i+1])\<close> in entry \<open>i\<close> and the row of
  \<open>get_num (c[i])\<close> in entry \<open>i + 1\<close>. For the challenge 1A the entries 0 to 5 are the rows
  of F, 0, F, F, A and 1.
\<close>

theorem flicker_data_pairs:
  assumes "length chal \<le> 250"
  shows "(\<exists>ba'. flicker_data mem chal ba = Inr (pre @ chal @ [mem (length chal + 4)], ba') \<and>
           (\<forall>i. even i \<and> i + 1 < length (pre @ chal) \<longrightarrow>
                entry ba' i = bits ! get_num ((pre @ chal) ! (i + 1)) \<and>
                entry ba' (i + 1) = bits ! get_num ((pre @ chal) ! i))) \<and>
         (\<exists>code ba1. flicker_data mem ''1A'' ba = Inr (code, ba1) \<and>
            [entry ba1 0, entry ba1 1, entry ba1 2, entry ba1 3, entry ba1 4, entry ba1 5] =
            [bits ! 15, bits ! 0, bits ! 15, bits ! 15, bits ! 10, bits ! 1])"
proof -
  have general: "\<exists>ba'. flicker_data mem c ba = Inr (pre @ c @ [mem (length c + 4)], ba') \<and>
           (\<forall>i. even i \<and> i + 1 < length (pre @ c) \<longrightarrow>
                entry ba' i = bits ! get_num ((pre @ c) ! (i + 1)) \<and>
                entry ba' (i + 1) = bits ! get_num ((pre @ c) ! i))"
    if len: "length c \<le> 250" for c
  proof -
    let ?code = "pre @ c @ [mem (length c + 4)]"
    from flicker_data_succeeds[OF len] obtain ba' where
      d: "flicker_data mem c ba = Inr (?code, ba')" and
      l: "flicker_loop ?code (length c + 5) 0 ba = Inr ba'"
      by blast
    have "entry ba' i = bits ! get_num ((pre @ c) ! (i + 1)) \<and>
          entry ba' (i + 1) = bits ! get_num ((pre @ c) ! i)"
      if ev: "even i" and lt: "i + 1 < length (pre @ c)" for i
    proof -
      from ev obtain k where k: "i = 2 * k" by (auto elim: evenE)
      from lt have "0 + 2 * k < length c + 5 - 1" by (simp add: k pre_len)
      with flicker_loop_rows[OF l] have
        "entry ba' (0 + 2 * k) = bits ! get_num (?code ! (0 + 2 * k + 1)) \<and>
         entry ba' (0 + 2 * k + 1) = bits ! get_num (?code ! (0 + 2 * k))"
        by blast
      moreover have "?code ! (i + 1) = (pre @ c) ! (i + 1)"
        using lt nth_append[of "pre @ c" "[mem (length c + 4)]" "i + 1"] by simp
      moreover have "?code ! i = (pre @ c) ! i"
        using lt nth_append[of "pre @ c" "[mem (length c + 4)]" i] by simp
      ultimately show ?thesis by (simp add: k)
    qed
    with d show ?thesis by blast
  qed
  from general[of "''1A''"] obtain ba1 where
    d1: "flicker_data mem ''1A'' ba = Inr (pre @ ''1A'' @ [mem (length ''1A'' + 4)], ba1)" and
    p1: "\<forall>i. even i \<and> i + 1 < length (pre @ ''1A'') \<longrightarrow>
                entry ba1 i = bits ! get_num ((pre @ ''1A'') ! (i + 1)) \<and>
                entry ba1 (i + 1) = bits ! get_num ((pre @ ''1A'') ! i)"
    by auto
  from p1[rule_format, of 0] p1[rule_format, of 2] p1[rule_format, of 4]
  have "[entry ba1 0, entry ba1 1, entry ba1 2, entry ba1 3, entry ba1 4, entry ba1 5] =
            [bits ! 15, bits ! 0, bits ! 15, bits ! 15, bits ! 10, bits ! 1]"
    by (simp add: pre_def get_num_def)
  with d1 general[OF assms] show ?thesis by blast
qed

theorem flicker_data_pairs_witness:
  "length ''1A'' \<le> 250 \<and>
   (\<exists>code ba1. flicker_data nul_mem ''1A'' zero_rows = Inr (code, ba1) \<and>
      entry ba1 4 = [False, False, True, False, True] \<and>
      entry ba1 5 = [False, True, False, False, False])"
proof -
  have "length ''1A'' \<le> 250" by simp
  from flicker_data_pairs[OF this, of nul_mem zero_rows] obtain code ba1 where
    "flicker_data nul_mem ''1A'' zero_rows = Inr (code, ba1)" and
    "[entry ba1 0, entry ba1 1, entry ba1 2, entry ba1 3, entry ba1 4, entry ba1 5] =
       [bits ! 15, bits ! 0, bits ! 15, bits ! 15, bits ! 10, bits ! 1]"
    by blast
  then show ?thesis by (simp add: bits_def)
qed

theorem flicker_data_long_challenge_counterexample:
  "flicker_data nul_mem (replicate 252 (CHR ''0'')) zero_rows = Inl OutOfBounds"
  by (rule flicker_data_overflow) (simp only: length_replicate; simp)

text \<open>
  C2. \<open>ini_flicker_gui\<close> sets \<open>halfbyteid = 0\<close> and \<open>clock = 1\<close>. From such a state, with
  between 1 and 255 rows, tick number \<open>j\<close>
  (counted from 0) draws entry \<open>(j div 2) mod challenge_length\<close> with slot 0 replaced by
  the clock, which is 1 on even and 0 on odd ticks. After \<open>k\<close> ticks the cursor is
  \<open>(k div 2) mod challenge_length\<close>: it moves by one, back to 0 at the end, exactly on
  the ticks that draw with clock 0 and set it to 1 again, so each entry is drawn on two
  ticks in a row.
\<close>

theorem tick_cadence:
  assumes "halfbyteid (flickerdraw s) = 0" and "clock (flickerdraw s) = 1"
    and "\<not> change_interval (flickerdraw s)"
    and "0 < challenge_length (flickerdraw s)" and "challenge_length (flickerdraw s) \<le> 255"
  shows "halfbyteid (flickerdraw (ini_flicker_gui pChallenge saved_delay s0)) = 0 \<and>
         clock (flickerdraw (ini_flicker_gui pChallenge saved_delay s0)) = 1 \<and>
         (\<exists>fs s'. run_ticks k s = Inr (fs, s') \<and> length fs = k \<and>
           (\<forall>j<k. fs ! j =
              Some ((entry (bitarray s) ((j div 2) mod challenge_length (flickerdraw s)))
                      [0 := even j])) \<and>
           halfbyteid (flickerdraw s') = (k div 2) mod challenge_length (flickerdraw s) \<and>
           clock (flickerdraw s') = (if even k then 1 else 0))"
proof -
  have "halfbyteid (flickerdraw (ini_flicker_gui pChallenge saved_delay s0)) = 0 \<and>
        clock (flickerdraw (ini_flicker_gui pChallenge saved_delay s0)) = 1"
    by (simp add: ini_flicker_gui_def)
  moreover have "\<exists>fs s'. run_ticks k s = Inr (fs, s') \<and> length fs = k \<and>
           (\<forall>j<k. fs ! j =
              Some ((entry (bitarray s) ((j div 2) mod challenge_length (flickerdraw s)))
                      [0 := even j])) \<and>
           halfbyteid (flickerdraw s') = (k div 2) mod challenge_length (flickerdraw s) \<and>
           clock (flickerdraw s') = (if even k then 1 else 0)"
    using run_ticks_cadence[of s "challenge_length (flickerdraw s)" 0 "bitarray s" k] assms
    by simp
  ultimately show ?thesis by blast
qed

theorem tick_cadence_witness:
  "halfbyteid (flickerdraw session_1A) = 0 \<and> clock (flickerdraw session_1A) = 1 \<and>
   \<not> change_interval (flickerdraw session_1A) \<and>
   0 < challenge_length (flickerdraw session_1A) \<and>
   challenge_length (flickerdraw session_1A) \<le> 255 \<and>
   (\<exists>fs s'. run_ticks 4 session_1A = Inr (fs, s') \<and>
      fs ! 0 = Some [True, True, True, True, True] \<and>
      fs ! 1 = Some [False, True, True, True, True] \<and>
      fs ! 2 = Some [True, False, False, False, False] \<and>
      fs ! 3 = Some [False, False, False, False, False] \<and>
      halfbyteid (flickerdraw s') = 2 \<and> clock (flickerdraw s') = 1) \<and>
   (\<exists>fs s'. run_ticks 12 session_1A = Inr (fs, s') \<and>
      halfbyteid (flickerdraw s') = 0 \<and> clock (flickerdraw s') = 1)"
proof -
  have a: "halfbyteid (flickerdraw session_1A) = 0" "clock (flickerdraw session_1A) = 1"
    "\<not> change_interval (flickerdraw session_1A)"
    "0 < challenge_length (flickerdraw session_1A)"
    "challenge_length (flickerdraw session_1A) \<le> 255"
    by (simp_all add: session_1A_flickerdraw)
  have L: "challenge_length (flickerdraw session_1A) = 6" by (simp add: session_1A_flickerdraw)
  have rows: "entry (bitarray session_1A) 0 = [False, True, True, True, True]"
    "entry (bitarray session_1A) (Suc 0) = [False, False, False, False, False]"
    using session_1A_rows by (simp_all add: bits_def)
  from tick_cadence[OF a, where k = 4, THEN conjunct2, THEN conjunct2] obtain fs s' where
    r: "run_ticks 4 session_1A = Inr (fs, s')" and
    f: "\<forall>j<4. fs ! j =
              Some ((entry (bitarray session_1A) ((j div 2) mod challenge_length (flickerdraw session_1A)))
                      [0 := even j])" and
    e: "halfbyteid (flickerdraw s') = (4 div 2) mod challenge_length (flickerdraw session_1A)"
       "clock (flickerdraw s') = (if even (4::nat) then 1 else 0)"
    by blast
  from f[rule_format, of 0] f[rule_format, of 1] f[rule_format, of 2] f[rule_format, of 3]
  have "fs ! 0 = Some [True, True, True, True, True] \<and>
      fs ! 1 = Some [False, True, True, True, True] \<and>
      fs ! 2 = Some [True, False, False, False, False] \<and>
      fs ! 3 = Some [False, False, False, False, False]"
    by (simp add: L rows)
  with r e have 1: "\<exists>fs s'. run_ticks 4 session_1A = Inr (fs, s') \<and>
      fs ! 0 = Some [True, True, True, True, True] \<and>
      fs ! 1 = Some [False, True, True, True, True] \<and>
      fs ! 2 = Some [True, False, False, False, False] \<and>
      fs ! 3 = Some [False, False, False, False, False] \<and>
      halfbyteid (flickerdraw s') = 2 \<and> clock (flickerdraw s') = 1"
    by (simp add: L)
  from tick_cadence[OF a, where k = 12, THEN conjunct2, THEN conjunct2] have 2: "\<exists>fs s'. run_ticks 12 session_1A = Inr (fs, s') \<and>
      halfbyteid (flickerdraw s') = 0 \<and> clock (flickerdraw s') = 1"
    by (auto simp add: L)
  from a 1 2 show ?thesis by blast
qed

text \<open>
  C3. The number of rows is \<open>strlen(code)\<close>, and \<open>flicker_data\<close> never stores the
  terminator of \<open>code\<close>. For the challenge 1A in a recycled block without a zero byte
  the scan leaves the block; only when the byte after the copied characters happens to be
  zero is the length \<open>2 + 4\<close>.
\<close>

theorem unterminated_code_length:
  "on_flicker_challenge_map dirty_mem (ini_flicker_gui ''1A'' None startup) = Inl OutOfBounds \<and>
   map_sum id (\<lambda>s. challenge_length (flickerdraw s))
     (on_flicker_challenge_map nul_mem (ini_flicker_gui ''1A'' None startup)) = Inr 6"
  by (simp add: on_flicker_challenge_map_def ini_flicker_gui_def startup_def flicker_data_unfold
      pre_def flicker_loop_unfold store_row_def strlen_def dirty_mem_def nul_mem_def
      g_timeout_add_def)

text \<open>
  C4. The table has 16 rows of 5 slots; for every nibble \<open>v\<close> below 16 the slot
  \<open>j\<close> (1 to 4) of row \<open>v\<close> is bit \<open>j - 1\<close> of \<open>v\<close>, so the data slots hold the nibble
  bit-reversed: 0 gives 0000, 1 gives 1000, 8 gives 0001 and 15 gives 1111.
\<close>

theorem bits_reverse_nibble:
  "length bits = 16 \<and>
   (\<forall>v<16. length (bits ! v) = 5 \<and> (\<forall>j. 1 \<le> j \<and> j \<le> 4 \<longrightarrow> bits ! v ! j = bit v (j - 1))) \<and>
   tl (bits ! 0) = [False, False, False, False] \<and>
   tl (bits ! 1) = [True, False, False, False] \<and>
   tl (bits ! 8) = [False, False, False, True] \<and>
   tl (bits ! 15) = [True, True, True, True]"
proof -
  have row: "length (bits ! v) = 5 \<and> (\<forall>j. 1 \<le> j \<and> j \<le> 4 \<longrightarrow> bits ! v ! j = bit v (j - 1))"
    if "v < 16" for v :: nat
  proof -
    have j: "j = 1 \<or> j = 2 \<or> j = 3 \<or> j = 4" if "1 \<le> j \<and> j \<le> 4" for j :: nat
      using that by arith
    have "length (bits ! v) = 5 \<and> bits ! v ! 1 = bit v 0 \<and> bits ! v ! 2 = bit v 1 \<and>
          bits ! v ! 3 = bit v 2 \<and> bits ! v ! 4 = bit v 3"
      using nibble_cases[OF that]
      by (auto simp add: bits_def bit_numeral_simps bit_Suc_0_iff)
    then have slots: "bits ! v ! 1 = bit v 0" "bits ! v ! 2 = bit v 1"
        "bits ! v ! 3 = bit v 2" "bits ! v ! 4 = bit v 3" and len: "length (bits ! v) = 5"
      by simp_all
    have "bits ! v ! j = bit v (j - 1)" if "1 \<le> j \<and> j \<le> 4" for j
      using j[OF that] slots by (elim disjE) simp_all
    with len show ?thesis by blast
  qed
  have "length bits = 16" by (simp add: bits_def)
  moreover have "tl (bits ! 0) = [False, False, False, False] \<and>
   tl (bits ! 1) = [True, False, False, False] \<and>
   tl (bits ! 8) = [False, False, False, True] \<and>
   tl (bits ! 15) = [True, True, True, True]" by (simp add: bits_def)
  ultimately show ?thesis using row by blast
qed

theorem bits_reverse_nibble_witness:
  "(10::nat) < 16 \<and> bits ! 10 ! 2 = bit (10::nat) 1 \<and> bits ! 10 ! 2"
proof -
  from bits_reverse_nibble have "bits ! 10 ! 2 = bit (10::nat) (2 - 1)" by simp
  then show ?thesis by (simp add: bit_numeral_simps)
qed

text \<open>
  C5 (as amended). \<open>on_spin_delay_value_changed\<close> stores the new delay, raises the flag and
  calls \<open>time_handler\<close> itself, which at once cancels the running timer, starts one with
  the new delay and clears the flag. When the handler returns the flag is clear, no timer
  with the old delay is left and no redraw was queued: no further tick at the old cadence
  occurs.
\<close>

theorem spin_delay_reschedules_at_once:
  "on_spin_delay_value_changed v s =
     (False,
      s\<lparr>flickerdraw := (flickerdraw s)\<lparr>delay := v, interval := next_source (glib s),
                                        change_interval := False\<rparr>,
        glib := (glib s)\<lparr>timeouts := ((timeouts (glib s))(interval (flickerdraw s) := None))
                                       (next_source (glib s) \<mapsto> v),
                         next_source := next_source (glib s) + 1\<rparr>\<rparr>)"
  by (simp add: on_spin_delay_value_changed_def time_handler_def g_source_remove_def
      g_timeout_add_def Let_def)

theorem spin_delay_reschedules_at_once_witness:
  "fst (on_spin_delay_value_changed 100 session_1A) = False \<and>
   delay (flickerdraw (snd (on_spin_delay_value_changed 100 session_1A))) = 100 \<and>
   timeouts (glib (snd (on_spin_delay_value_changed 100 session_1A))) 2 = Some 100"
  by (simp add: spin_delay_reschedules_at_once session_1A_glib)

theorem spin_delay_counterexample:
  "change_interval (flickerdraw (snd (on_spin_delay_value_changed 100 session_1A))) = False \<and>
   timeouts (glib session_1A) 1 = Some 50 \<and>
   timeouts (glib (snd (on_spin_delay_value_changed 100 session_1A))) 1 = None \<and>
   interval (flickerdraw (snd (on_spin_delay_value_changed 100 session_1A))) = 2 \<and>
   timeouts (glib (snd (on_spin_delay_value_changed 100 session_1A))) 2 = Some 100"
  by (simp add: on_spin_delay_value_changed_def time_handler_def g_source_remove_def
      g_timeout_add_def Let_def session_1A_flickerdraw session_1A_glib)

text \<open>
  C6. \<open>time_handler\<close> with the flag set clears it, cancels the timer \<open>interval\<close>, starts
  a timer with the new delay, returns FALSE and queues no redraw; as the firing of the
  timer it yields no frame. \<open>halfbyteid\<close>, \<open>clock\<close>, the row count and the bit array stay
  as they were, and the next tick draws the frame and reaches the animation state that a
  draw from the state before would have.
\<close>

theorem tick_applies_interval_change:
  assumes "change_interval (flickerdraw s)"
  shows "\<exists>s'. time_handler s = (False, False, s') \<and>
           (interval (flickerdraw s) < next_source (glib s) \<longrightarrow> on_tick s = Inr (None, s')) \<and>
           \<not> change_interval (flickerdraw s') \<and>
           timeouts (glib s') =
             ((timeouts (glib s))(interval (flickerdraw s) := None))
               (interval (flickerdraw s') \<mapsto> delay (flickerdraw s)) \<and>
           interval (flickerdraw s') = next_source (glib s) \<and>
           halfbyteid (flickerdraw s') = halfbyteid (flickerdraw s) \<and>
           clock (flickerdraw s') = clock (flickerdraw s) \<and>
           challenge_length (flickerdraw s') = challenge_length (flickerdraw s) \<and>
           bitarray s' = bitarray s \<and>
           map_sum id (\<lambda>(f, t). (f, halfbyteid (flickerdraw t), clock (flickerdraw t), bitarray t))
             (on_tick s') =
           map_sum id (\<lambda>(f, t). (Some f, halfbyteid (flickerdraw t), clock (flickerdraw t), bitarray t))
             (do_flicker_drawing s)"
proof -
  define s' where "s' =
    s\<lparr>flickerdraw := (flickerdraw s)\<lparr>interval := next_source (glib s), change_interval := False\<rparr>,
      glib := (glib s)\<lparr>timeouts := ((timeouts (glib s))(interval (flickerdraw s) := None))
                                     (next_source (glib s) \<mapsto> delay (flickerdraw s)),
                       next_source := next_source (glib s) + 1\<rparr>\<rparr>"
  have h: "time_handler s = (False, False, s')"
    using assms
    by (simp add: time_handler_def g_source_remove_def g_timeout_add_def Let_def s'_def)
  have t: "on_tick s = Inr (None, s')" if "interval (flickerdraw s) < next_source (glib s)"
    using assms that
    by (simp add: on_tick_def time_handler_def g_source_remove_def g_timeout_add_def Let_def
        s'_def fun_upd_twist)
  have n: "\<not> change_interval (flickerdraw s')" by (simp add: s'_def)
  have d: "map_sum id (\<lambda>(f, t). (f, halfbyteid (flickerdraw t), clock (flickerdraw t), bitarray t))
             (on_tick s') =
           map_sum id (\<lambda>(f, t). (Some f, halfbyteid (flickerdraw t), clock (flickerdraw t), bitarray t))
             (do_flicker_drawing s)"
    unfolding on_tick_draws[OF n]
    by (simp add: do_flicker_drawing_def s'_def Let_def)
  from h t n d show ?thesis by (simp add: s'_def)
qed

theorem tick_applies_interval_change_witness:
  "change_interval (flickerdraw pending_1A) \<and>
   (\<exists>s'. time_handler pending_1A = (False, False, s') \<and>
      on_tick pending_1A = Inr (None, s') \<and>
      timeouts (glib s') 1 = None \<and> timeouts (glib s') 2 = Some 100 \<and>
      halfbyteid (flickerdraw s') = 0 \<and> clock (flickerdraw s') = 1 \<and>
      map_sum id (\<lambda>(f, t). (f, halfbyteid (flickerdraw t), clock (flickerdraw t))) (on_tick s') =
        Inr (Some [True, True, True, True, True], 0, 0))"
proof -
  have a: "change_interval (flickerdraw pending_1A)"
    by (simp add: pending_1A_flickerdraw pending_1A_rest session_1A_glib)
  have b: "interval (flickerdraw pending_1A) < next_source (glib pending_1A)"
    by (simp add: pending_1A_flickerdraw pending_1A_rest session_1A_glib)
  from tick_applies_interval_change[OF a] b obtain s' where
    1: "time_handler pending_1A = (False, False, s')" and
    2: "on_tick pending_1A = Inr (None, s')" and
    3: "timeouts (glib s') =
             ((timeouts (glib pending_1A))(interval (flickerdraw pending_1A) := None))
               (interval (flickerdraw s') \<mapsto> delay (flickerdraw pending_1A))" and
    4: "interval (flickerdraw s') = next_source (glib pending_1A)" and
    5: "halfbyteid (flickerdraw s') = halfbyteid (flickerdraw pending_1A)"
       "clock (flickerdraw s') = clock (flickerdraw pending_1A)" and
    6: "map_sum id (\<lambda>(f, t). (f, halfbyteid (flickerdraw t), clock (flickerdraw t), bitarray t))
             (on_tick s') =
           map_sum id (\<lambda>(f, t). (Some f, halfbyteid (flickerdraw t), clock (flickerdraw t), bitarray t))
             (do_flicker_drawing pending_1A)"
    by blast
  have 7: "timeouts (glib s') 1 = None \<and> timeouts (glib s') 2 = Some 100"
    unfolding 3 4 by (simp add: pending_1A_flickerdraw pending_1A_rest session_1A_glib)
  have 8: "halfbyteid (flickerdraw s') = 0 \<and> clock (flickerdraw s') = 1"
    unfolding 5 by (simp add: pending_1A_flickerdraw)
  have "map_sum id (\<lambda>(f, t). (f, halfbyteid (flickerdraw t), clock (flickerdraw t))) (on_tick s') =
        map_sum id (\<lambda>(f, h, c, b). (f, h, c))
          (map_sum id (\<lambda>(f, t). (f, halfbyteid (flickerdraw t), clock (flickerdraw t), bitarray t))
             (on_tick s'))"
    by (cases "on_tick s'") auto
  also have "\<dots> = Inr (Some [True, True, True, True, True], 0, 0)"
    unfolding 6
    by (simp add: do_flicker_drawing_def pending_1A_flickerdraw pending_1A_rest session_1A_row0
        Let_def)
  finally have 9: "map_sum id (\<lambda>(f, t). (f, halfbyteid (flickerdraw t), clock (flickerdraw t))) (on_tick s') =
        Inr (Some [True, True, True, True, True], 0, 0)" .
  from a 1 2 7 8 9 show ?thesis by blast
qed

text \<open>
  C7 (as amended). For a challenge of odd length \<open>N\<close> (at most 250 characters) the loop
  runs once more for the last character: it pairs \<open>code[N + 3]\<close> with the byte behind it,
  \<open>code[N + 4]\<close>. No error arises; entry \<open>N + 3\<close> is overwritten with the table row of
  that following byte, and the row of the last character's nibble is stored in entry
  \<open>N + 4\<close>, one past the \<open>N + 4\<close> entries of the table.
\<close>

theorem odd_challenge_tail:
  assumes "odd (length chal)" and "length chal \<le> 250"
  shows "\<exists>ba'. flicker_data mem chal ba = Inr (pre @ chal @ [mem (length chal + 4)], ba') \<and>
           entry ba' (length chal + 3) = bits ! get_num (mem (length chal + 4)) \<and>
           entry ba' (length chal + 4) = bits ! get_num (last chal)"
proof -
  let ?code = "pre @ chal @ [mem (length chal + 4)]"
  from flicker_data_succeeds[OF assms(2)] obtain ba' where
    d: "flicker_data mem chal ba = Inr (?code, ba')" and
    l: "flicker_loop ?code (length chal + 5) 0 ba = Inr ba'"
    by blast
  from assms(1) obtain m where m: "length chal = 2 * m + 1" by (auto elim: oddE)
  define k where "k = m + 2"
  have k: "2 * k = length chal + 3" by (simp add: k_def m)
  then have "0 + 2 * k < length chal + 5 - 1" by simp
  with flicker_loop_rows[OF l] have
    "entry ba' (0 + 2 * k) = bits ! get_num (?code ! (0 + 2 * k + 1)) \<and>
     entry ba' (0 + 2 * k + 1) = bits ! get_num (?code ! (0 + 2 * k))"
    by blast
  moreover have e1: "0 + 2 * k = length chal + 3" and e2: "0 + 2 * k + 1 = length chal + 4"
    using k by simp_all
  ultimately have p: "entry ba' (length chal + 3) = bits ! get_num (?code ! (length chal + 4)) \<and>
     entry ba' (length chal + 4) = bits ! get_num (?code ! (length chal + 3))"
    by (simp only: e1 e2)
  have ne: "chal \<noteq> []" using m by auto
  have c4: "?code ! (length chal + 4) = mem (length chal + 4)"
    using nth_append_length[of "pre @ chal" "mem (length chal + 4)" "[]"]
    by (simp add: pre_len add.commute)
  have "?code ! (length chal + 3) = (pre @ chal) ! (length chal + 3)"
    using ne nth_append[of "pre @ chal" "[mem (length chal + 4)]" "length chal + 3"]
    by (simp add: pre_len)
  also have "\<dots> = chal ! (length chal - 1)"
    using ne nth_append[of pre chal "length chal + 3"] by (simp add: pre_len)
  also have "\<dots> = last chal" using ne by (simp add: last_conv_nth)
  finally have c3: "?code ! (length chal + 3) = last chal" .
  from d p c3 c4 show ?thesis by simp
qed

theorem odd_challenge_tail_witness:
  "odd (length ''1'') \<and> length ''1'' \<le> 250 \<and>
   (\<exists>ba'. flicker_data dirty_mem ''1'' zero_rows = Inr (''0FFF1A'', ba') \<and>
      entry ba' 4 = [False, False, True, False, True] \<and>
      entry ba' 5 = [False, True, False, False, False])"
proof -
  have a: "odd (length ''1'')" and b: "length ''1'' \<le> 250" by simp_all
  from odd_challenge_tail[OF a b, of dirty_mem zero_rows]
  show ?thesis by (simp add: pre_def dirty_mem_def get_num_def bits_def)
qed

theorem odd_challenge_tail_counterexample:
  "(case flicker_data nul_mem ''FF'' zero_rows of
      Inl e \<Rightarrow> False
    | Inr (code1, ba1) \<Rightarrow>
        (case flicker_data nul_mem ''1'' ba1 of
           Inl e \<Rightarrow> False
         | Inr (code2, ba2) \<Rightarrow>
             entry ba1 4 = [False, True, True, True, True] \<and>
             entry ba2 4 = [False, False, False, False, False] \<and>
             entry ba2 5 = [False, True, False, False, False]))"
  by (simp add: flicker_data_unfold pre_def entry_def
      flicker_loop_unfold store_row_def zero_rows_def nul_mem_def get_num_def bits_def)

text \<open>
  C8 (as amended). A character outside 0-9, A-F, a-f gives the nibble 0; the hex letters
  give 10 to 15 in either case; and the encoder succeeds on every string of at most 250
  characters whatever its characters are. It has no error path for a character; what
  bounds the input is the 255 rows of the bit array.
\<close>

theorem get_num_silent_fallback:
  "(c \<notin> set ''0123456789ABCDEFabcdef'' \<longrightarrow> get_num c = 0) \<and>
   map get_num ''0123456789ABCDEF'' = [0, 1, 2, 3, 4, 5, 6, 7, 8, 9, 10, 11, 12, 13, 14, 15] \<and>
   map get_num ''abcdef'' = map get_num ''ABCDEF'' \<and>
   (length chal \<le> 250 \<longrightarrow> (\<exists>code ba'. flicker_data mem chal ba = Inr (code, ba')))"
proof -
  have "map get_num ''0123456789ABCDEF'' = [0, 1, 2, 3, 4, 5, 6, 7, 8, 9, 10, 11, 12, 13, 14, 15]"
    by (simp add: get_num_def)
  moreover have "map get_num ''abcdef'' = map get_num ''ABCDEF''"
    by (simp add: get_num_def)
  moreover have "\<exists>code ba'. flicker_data mem chal ba = Inr (code, ba')" if "length chal \<le> 250"
    using flicker_data_succeeds[OF that, of mem ba] by blast
  ultimately show ?thesis using get_num_fallback by blast
qed

theorem get_num_silent_fallback_witness:
  "CHR ''g'' \<notin> set ''0123456789ABCDEFabcdef'' \<and> get_num (CHR ''g'') = 0 \<and>
   length ''g:'' \<le> 250 \<and> (\<exists>code ba'. flicker_data nul_mem ''g:'' zero_rows = Inr (code, ba'))"
proof -
  have a: "CHR ''g'' \<notin> set ''0123456789ABCDEFabcdef''" by simp
  have b: "length ''g:'' \<le> 250" by simp
  from get_num_silent_fallback[of "CHR ''g''" "''g:''" nul_mem zero_rows] a b
  show ?thesis by blast
qed

theorem flicker_data_long_hex_counterexample:
  "flicker_data nul_mem (replicate 251 (CHR ''F'')) zero_rows = Inl OutOfBounds"
  by (rule flicker_data_overflow) (simp only: length_replicate)

text \<open>
  C9 (as amended). The encoder copies whole table rows: for a challenge of at most 250
  characters every entry below \<open>length + 4\<close> is a row of \<open>bits\<close> after encoding, so its
  slot 0 is 0 whatever it held before. The draw handler stores the clock into slot 0 of
  the current entry and draws that entry with slot 0 replaced by the clock.
\<close>

theorem encoder_writes_clock_slot:
  assumes "length chal \<le> 250"
  shows "(\<exists>code ba'. flicker_data mem chal ba = Inr (code, ba') \<and>
           (\<forall>i<length chal + 4. \<not> ba' i 0 \<and> (\<exists>v<16. entry ba' i = bits ! v))) \<and>
         (halfbyteid (flickerdraw s) < 255 \<longrightarrow>
           (\<exists>frame s'. do_flicker_drawing s = Inr (frame, s') \<and>
              bitarray s' (halfbyteid (flickerdraw s)) 0 = (clock (flickerdraw s) \<noteq> 0) \<and>
              frame = (entry (bitarray s) (halfbyteid (flickerdraw s)))[0 := clock (flickerdraw s) \<noteq> 0]))"
proof -
  let ?code = "pre @ chal @ [mem (length chal + 4)]"
  from flicker_data_succeeds[OF assms] obtain ba' where
    d: "flicker_data mem chal ba = Inr (?code, ba')" and
    l: "flicker_loop ?code (length chal + 5) 0 ba = Inr ba'"
    by blast
  have rows: "\<not> ba' i 0 \<and> (\<exists>v<16. entry ba' i = bits ! v)" if i: "i < length chal + 4" for i
  proof -
    define k where "k = i div 2"
    from i have "0 + 2 * k < length chal + 5 - 1" by (simp add: k_def)
    with flicker_loop_rows[OF l] have
      p: "entry ba' (0 + 2 * k) = bits ! get_num (?code ! (0 + 2 * k + 1)) \<and>
          entry ba' (0 + 2 * k + 1) = bits ! get_num (?code ! (0 + 2 * k))"
      by blast
    have "i = 2 * k \<or> i = 2 * k + 1" by (simp add: k_def) arith
    with p obtain v where v: "v < 16" and e: "entry ba' i = bits ! v"
      using get_num_range by auto
    from e have "entry ba' i ! 0 = bits ! v ! 0" by simp
    then have "ba' i 0 = bits ! v ! 0" by (simp add: entry_def)
    with bits_clock_slot[OF v] v e show ?thesis by blast
  qed
  have draw: "\<exists>frame s'. do_flicker_drawing s = Inr (frame, s') \<and>
              bitarray s' (halfbyteid (flickerdraw s)) 0 = (clock (flickerdraw s) \<noteq> 0) \<and>
              frame = (entry (bitarray s) (halfbyteid (flickerdraw s)))[0 := clock (flickerdraw s) \<noteq> 0]"
    if "halfbyteid (flickerdraw s) < 255"
    using that by (simp add: do_flicker_drawing_def Let_def entry_def)
  from d rows draw show ?thesis by blast
qed

theorem encoder_writes_clock_slot_witness:
  "length ''1A'' \<le> 250 \<and>
   (\<exists>code ba'. flicker_data nul_mem ''1A'' zero_rows = Inr (code, ba') \<and> \<not> ba' 5 0) \<and>
   halfbyteid (flickerdraw session_1A) < 255 \<and>
   (\<exists>frame s'. do_flicker_drawing session_1A = Inr (frame, s') \<and> bitarray s' 0 0 \<and>
      frame = [True, True, True, True, True])"
proof -
  have a: "length ''1A'' \<le> 250" by simp
  have b: "halfbyteid (flickerdraw session_1A) < 255" by (simp add: session_1A_flickerdraw)
  note t = encoder_writes_clock_slot[OF a, of nul_mem zero_rows session_1A]
  from t obtain code ba' where
    "flicker_data nul_mem ''1A'' zero_rows = Inr (code, ba')" and "\<forall>i<length ''1A'' + 4. \<not> ba' i 0"
    by blast
  then have 1: "\<exists>code ba'. flicker_data nul_mem ''1A'' zero_rows = Inr (code, ba') \<and> \<not> ba' 5 0"
    by auto
  from t b obtain frame s' where
    "do_flicker_drawing session_1A = Inr (frame, s')"
    "bitarray s' (halfbyteid (flickerdraw session_1A)) 0 = (clock (flickerdraw session_1A) \<noteq> 0)"
    "frame = (entry (bitarray session_1A) (halfbyteid (flickerdraw session_1A)))[0 := clock (flickerdraw session_1A) \<noteq> 0]"
    by blast
  then have 2: "\<exists>frame s'. do_flicker_drawing session_1A = Inr (frame, s') \<and> bitarray s' 0 0 \<and>
      frame = [True, True, True, True, True]"
    by (simp add: session_1A_flickerdraw session_1A_row0 entry_def)
  from a b 1 2 show ?thesis by blast
qed

theorem encoder_overwrites_clock_slot_counterexample:
  "(case do_flicker_drawing session_1A of
      Inl e \<Rightarrow> False
    | Inr (frame, s1) \<Rightarrow>
        bitarray s1 0 0 \<and>
        (case flicker_data nul_mem ''1A'' (bitarray s1) of
           Inl e \<Rightarrow> False
         | Inr (code, ba') \<Rightarrow> \<not> ba' 0 0))"
  by (simp add: do_flicker_drawing_def session_1A_flickerdraw flicker_data_unfold pre_def
      flicker_loop_unfold store_row_def nul_mem_def get_num_def bits_def)

text \<open>
  C10. \<open>get_num\<close> returns a value below 16 for every character, so the guard
  \<open>val1 < 0x10 && val2 < 0x10\<close> of the pair loop holds for every buffer and index, and
  the loop is the one without the \<open>else\<close> branch: the \<open>continue\<close> is never reached.
\<close>

theorem pair_guard_always_true:
  "get_num ch < 16 \<and>
   (get_num (code ! i) < 0x10 \<and> get_num (code ! (i + 1)) < 0x10) \<and>
   flicker_loop code len i ba =
     (if i < len - 1 then
        (case store_row ba i (bits ! get_num (code ! (i + 1))) of
           Inl e \<Rightarrow> Inl e
         | Inr ba1 \<Rightarrow>
             (case store_row ba1 (i + 1) (bits ! get_num (code ! i)) of
                Inl e \<Rightarrow> Inl e
              | Inr ba2 \<Rightarrow> flicker_loop code len (i + 2) ba2))
      else Inr ba)"
  by (intro conjI get_num_range flicker_loop_unfold)

theorem pair_guard_always_true_witness:
  "get_num (CHR 0xFF) < 16"
  by (rule pair_guard_always_true[of "CHR 0xFF" "[]" 0 0 zero_rows, THEN conjunct1])

end
